theory Spec2Isabelle
  imports Main
begin

section \<open>mxdev: the requirements/constraints resolution pipeline\<close>

text \<open>
  A shallow embedding of \<^verbatim>\<open>src/mxdev/processing.py\<close>. A Python \<^verbatim>\<open>str\<close> is a
  \<^typ>\<open>string\<close>, one \<^typ>\<open>char\<close> per code point, so the model covers text whose code
  points are below 256. Everything the module obtains from outside itself (the package
  requirement parser of \<^verbatim>\<open>pkg_resources\<close>, the UTF-8 codec, \<^verbatim>\<open>urlparse\<close>, the file
  system and the network) is a field of the record \<open>world\<close>, which the functions only read.
  The logger is the state that is threaded through every call.
\<close>

subsection \<open>Python strings\<close>

definition nl :: string where
  "nl = [CHR 0x0A]"

text \<open>The characters below 256 that \<^verbatim>\<open>str.isspace\<close> accepts; \<^verbatim>\<open>str.strip()\<close> removes them.\<close>

definition isspace :: "char \<Rightarrow> bool" where
  "isspace c = (c \<in> set [CHR 0x09, CHR 0x0A, CHR 0x0B, CHR 0x0C, CHR 0x0D,
      CHR 0x1C, CHR 0x1D, CHR 0x1E, CHR 0x1F, CHR 0x20, CHR 0x85, CHR 0xA0])"

definition strip :: "string \<Rightarrow> string" where
  "strip s = rev (dropWhile isspace (rev (dropWhile isspace s)))"

definition startswith :: "string \<Rightarrow> string \<Rightarrow> bool" where
  "startswith s p = (take (length p) s = p)"

text \<open>\<^verbatim>\<open>s.split(" ")\<close>: cut at every single space; never the empty list.\<close>

fun split_sp :: "string \<Rightarrow> string list" where
  "split_sp [] = [[]]"
| "split_sp (c # cs) =
     (if c = CHR 0x20 then [] # split_sp cs
      else (case split_sp cs of [] \<Rightarrow> [[c]] | w # ws \<Rightarrow> (c # w) # ws))"

text \<open>\<^verbatim>\<open>s.replace(a, b)\<close> for one-character \<open>a\<close> and \<open>b\<close>.\<close>

definition replace_char :: "char \<Rightarrow> char \<Rightarrow> string \<Rightarrow> string" where
  "replace_char a b s = map (\<lambda>c. if c = a then b else c) s"

subsection \<open>Log, errors, the outside world\<close>

datatype level = DEBUG | INFO | WARNING | ERROR

type_synonym log = "(level \<times> string) list"

datatype error =
  IndexError | UnicodeDecodeError | ValueError | OSError | URLError | RecursionError

text \<open>A line read from a text-mode file is a \<^verbatim>\<open>str\<close>, one read from a URL is \<^verbatim>\<open>bytes\<close>.\<close>

datatype pyline = Str string | Bytes string

text \<open>
  An open file or response is iterated line by line. The iteration yields some lines and
  then either ends or raises (a text-mode file whose bytes do not decode raises
  \<open>UnicodeDecodeError\<close> at the line it cannot decode, after the lines before it were
  handed out): a stream is the list of the lines yielded and the exception that ends it,
  if any.
\<close>

type_synonym stream = "pyline list \<times> error option"

text \<open>
  What \<^verbatim>\<open>os.stat\<close> does on a path: it succeeds, or raises \<open>OSError\<close> with an error
  number, or raises \<open>ValueError\<close> (a path that cannot be encoded).
\<close>

datatype errno = ENOENT | ENOTDIR | EBADF | ELOOP | ENAMETOOLONG | EACCES | EIO

datatype stat_outcome = StatOk | StatOSError errno | StatValueError

text \<open>
  \<^item> \<open>requirement_key l\<close> is \<^verbatim>\<open>pkg_resources.Requirement.parse(l).key\<close>, \<open>None\<close> when
    the parser raises;
  \<^item> \<open>decode_utf8 b\<close> is \<^verbatim>\<open>b.decode("utf8")\<close>, \<open>None\<close> when it raises;
  \<^item> \<open>url_scheme x\<close> is \<^verbatim>\<open>parse.urlparse(x).scheme\<close>, \<open>None\<close> when it raises;
  \<^item> \<open>path_stat x\<close> is what \<^verbatim>\<open>Path(x).stat()\<close> does;
  \<^item> \<open>path_open x\<close> is the stream of the file \<open>x\<close> opened for reading, \<open>None\<close> when
    opening it raises;
  \<^item> \<open>urlopen x\<close> is the stream of the response, \<open>None\<close> when the request raises.
\<close>

record world =
  requirement_key :: "string \<Rightarrow> string option"
  decode_utf8 :: "string \<Rightarrow> string option"
  url_scheme :: "string \<Rightarrow> string option"
  path_stat :: "string \<Rightarrow> stat_outcome"
  path_open :: "string \<Rightarrow> stream option"
  urlopen :: "string \<Rightarrow> stream option"

text \<open>
  \<^verbatim>\<open>Path(x).exists()\<close> of \<^verbatim>\<open>pathlib\<close>: it calls \<^verbatim>\<open>stat\<close>, answers \<open>False\<close> when
  that raises \<open>OSError\<close> with one of the error numbers ENOENT, ENOTDIR, EBADF, ELOOP
  or raises \<open>ValueError\<close>, and lets every other \<open>OSError\<close> through.
\<close>

definition path_exists :: "world \<Rightarrow> string \<Rightarrow> error + bool" where
  "path_exists w p =
     (case path_stat w p of
        StatOk \<Rightarrow> Inr True
      | StatValueError \<Rightarrow> Inr False
      | StatOSError e \<Rightarrow>
          (if e \<in> set [ENOENT, ENOTDIR, EBADF, ELOOP] then Inr False else Inl OSError))"

type_synonym merged = "string list \<times> string list"

subsection \<open>process\_line, process\_io, resolve\_dependencies\<close>

text \<open>Lines 19--20 of \<^verbatim>\<open>process_line\<close>: bytes are decoded, text is kept.\<close>

definition decode_line :: "world \<Rightarrow> pyline \<Rightarrow> string option" where
  "decode_line w line = (case line of Bytes b \<Rightarrow> decode_utf8 w b | Str s \<Rightarrow> Some s)"

text \<open>
  The three functions call each other. The first argument bounds the depth of nested
  \<^verbatim>\<open>resolve_dependencies\<close> calls, as the interpreter's recursion limit does: at depth
  zero the call raises \<open>RecursionError\<close>. The accumulators that \<^verbatim>\<open>process_io\<close> extends
  in place are passed in and returned. An exception, also one raised by the iteration
  over the stream, leaves the loop and the callers with the log written so far.
\<close>

function (sequential)
  process_line :: "nat \<Rightarrow> world \<Rightarrow> pyline \<Rightarrow> string list \<Rightarrow> string list \<Rightarrow> string list
    \<Rightarrow> string \<Rightarrow> log \<Rightarrow> log \<times> (error + merged)"
and process_io :: "nat \<Rightarrow> world \<Rightarrow> stream \<Rightarrow> string list \<Rightarrow> string list
    \<Rightarrow> string list \<Rightarrow> string list \<Rightarrow> string list \<Rightarrow> string
    \<Rightarrow> log \<Rightarrow> log \<times> (error + merged)"
and resolve_dependencies :: "nat \<Rightarrow> world \<Rightarrow> string \<Rightarrow> string list \<Rightarrow> string list
    \<Rightarrow> string list \<Rightarrow> string \<Rightarrow> log \<Rightarrow> log \<times> (error + merged)"
where
  "process_line n w line0 package_keys override_keys ignore_keys variety lg0 =
     (case decode_line w line0 of
        None \<Rightarrow> (lg0, Inl UnicodeDecodeError)
      | Some line \<Rightarrow>
          (let lg = lg0 @ [(DEBUG, ''Process Line ['' @ variety @ '']: '' @ strip line)] in
           if startswith line ''-c'' then
             (case split_sp line of
                _ # target # _ \<Rightarrow>
                  resolve_dependencies n w (strip target)
                    package_keys override_keys ignore_keys ''c'' lg
              | _ \<Rightarrow> (lg, Inl IndexError))
           else if startswith line ''-r'' then
             (case split_sp line of
                _ # target # _ \<Rightarrow>
                  resolve_dependencies n w (strip target)
                    package_keys override_keys ignore_keys ''r'' lg
              | _ \<Rightarrow> (lg, Inl IndexError))
           else
             (let line1 =
                (case requirement_key w line of
                   None \<Rightarrow> line
                 | Some key \<Rightarrow>
                     (let l1 = (if key \<in> set package_keys
                                then ''# '' @ strip line @ '' -> mxdev disabled (source)'' @ nl
                                else line);
                          l2 = (if variety = ''c'' \<and> key \<in> set override_keys
                                then ''# '' @ strip l1 @ '' -> mxdev disabled (override)'' @ nl
                                else l1);
                          l3 = (if variety = ''c'' \<and> key \<in> set ignore_keys
                                then ''# '' @ strip l2 @ '' -> mxdev disabled (ignore)'' @ nl
                                else l2)
                      in l3))
              in if variety = ''c'' then (lg, Inr ([], [line1])) else (lg, Inr ([line1], [])))))"
| "process_io n w ([], stop) requirements constraints
      package_keys override_keys ignore_keys variety lg =
     (case stop of
        None \<Rightarrow> (lg, Inr (requirements, constraints))
      | Some e \<Rightarrow> (lg, Inl e))"
| "process_io n w (line # fio, stop) requirements constraints
      package_keys override_keys ignore_keys variety lg =
     (case process_line n w line package_keys override_keys ignore_keys variety lg of
        (lg1, Inl e) \<Rightarrow> (lg1, Inl e)
      | (lg1, Inr (new_requirements, new_constraints)) \<Rightarrow>
          process_io n w (fio, stop)
            (requirements @ new_requirements) (constraints @ new_constraints)
            package_keys override_keys ignore_keys variety lg1)"
| "resolve_dependencies 0 w file_or_url package_keys override_keys ignore_keys variety lg =
     (lg, Inl RecursionError)"
| "resolve_dependencies (Suc n) w file_or_url package_keys override_keys ignore_keys variety lg0 =
     (if strip file_or_url = [] then
        (lg0 @ [(INFO, ''mxdev is configured to run without input requirements!'')],
         Inr ([], []))
      else
        (let lg = lg0 @ [(INFO, ''Read ['' @ variety @ '']: '' @ file_or_url)] in
         case url_scheme w file_or_url of
           None \<Rightarrow> (lg, Inl ValueError)
         | Some scheme \<Rightarrow>
             (let variety_verbose =
                    (if variety = ''r'' then ''requirements'' else ''constraints'') in
              case
                (if scheme = [] then
                   (case path_exists w file_or_url of
                      Inl e \<Rightarrow> (lg, Inl e)
                    | Inr True \<Rightarrow>
                        (case path_open w file_or_url of
                           None \<Rightarrow> (lg, Inl OSError)
                         | Some fio \<Rightarrow>
                             process_io n w fio [] []
                               package_keys override_keys ignore_keys variety lg)
                    | Inr False \<Rightarrow>
                        (lg @ [(INFO, ''Can not read '' @ variety_verbose @ '' file ''
                                  @ [CHR 0x27] @ file_or_url @ [CHR 0x27]
                                  @ '', it does not exist. Empty file assumed.'')],
                         Inr ([], [])))
                 else
                   (case urlopen w file_or_url of
                      None \<Rightarrow> (lg, Inl URLError)
                    | Some fio \<Rightarrow>
                        process_io n w fio [] []
                          package_keys override_keys ignore_keys variety lg))
              of
                (lg2, Inl e) \<Rightarrow> (lg2, Inl e)
              | (lg2, Inr (requirements, constraints)) \<Rightarrow>
                  (let requirements1 =
                         (if requirements \<noteq> [] \<and> variety = ''r'' then
                            [replicate 79 CHR ''#'' @ nl,
                             ''# begin requirements from: '' @ file_or_url @ nl @ nl]
                            @ requirements
                            @ [nl, ''# end requirements from: '' @ file_or_url @ nl,
                               replicate 79 CHR ''#'' @ nl]
                          else requirements);
                       constraints1 =
                         (if constraints \<noteq> [] \<and> variety = ''c'' then
                            [replicate 79 CHR ''#'' @ nl,
                             ''# begin constraints from: '' @ file_or_url @ nl,
                             nl]
                            @ constraints
                            @ [nl, ''# end constraints from: '' @ file_or_url @ nl,
                               replicate 79 CHR ''#'' @ nl @ nl]
                          else constraints)
                   in (lg2, Inr (requirements1, constraints1))))))"
  by pat_completeness auto
termination
  by (relation "inv_image (less_than <*lex*> less_than <*lex*> less_than)
        (\<lambda>x. case x of
           Inl (n, w, l, r) \<Rightarrow> (n, 1::nat, 0::nat)
         | Inr (Inl (n, w, fio, r)) \<Rightarrow> (n, 2, length (fst fio))
         | Inr (Inr (n, r)) \<Rightarrow> (n, 0, 0))") auto

declare process_line.simps [simp del]

subsection \<open>autocorrect\_pip\_url\<close>

definition autocorrect_pip_url :: "string \<Rightarrow> string" where
  "autocorrect_pip_url pip_url =
     (if startswith pip_url ''git@'' then
        ''git+ssh://'' @ replace_char CHR '':'' CHR ''/'' pip_url
      else if startswith pip_url ''ssh://'' then ''git+'' @ pip_url
      else if startswith pip_url ''https://'' then ''git+'' @ pip_url
      else pip_url)"

subsection \<open>The writer\<close>

text \<open>
  \<^verbatim>\<open>State\<close> and its \<^verbatim>\<open>configuration\<close> with the attributes that \<^verbatim>\<open>read\<close> and
  \<^verbatim>\<open>write\<close> use. A package is the dictionary \<^verbatim>\<open>packages[name]\<close> with the four keys
  that \<^verbatim>\<open>write_dev_sources\<close> looks up; a dictionary is the list of its items in
  iteration order.
\<close>

record package =
  target :: string
  extras :: string
  subdirectory :: string
  install_mode :: string

record configuration =
  infile :: string
  out_requirements :: string
  out_constraints :: string
  package_keys :: "string list"
  override_keys :: "string list"
  ignore_keys :: "string list"
  overrides :: "(string \<times> string) list"
  packages :: "(string \<times> package) list"

record state =
  configuration :: configuration
  requirements :: "string list"
  constraints :: "string list"

text \<open>\<^verbatim>\<open>read\<close> resolves the input file in requirement context whatever \<open>variety\<close> it is given.\<close>

definition read :: "nat \<Rightarrow> world \<Rightarrow> state \<Rightarrow> string \<Rightarrow> log \<Rightarrow> log \<times> (error + state)" where
  "read n w st variety lg =
     (let cfg = configuration st in
      case resolve_dependencies n w (infile cfg)
             (package_keys cfg) (override_keys cfg) (ignore_keys cfg) ''r'' lg of
        (lg1, Inl e) \<Rightarrow> (lg1, Inl e)
      | (lg1, Inr (rs, cs)) \<Rightarrow> (lg1, Inr (st\<lparr>requirements := rs, constraints := cs\<rparr>)))"

text \<open>
  An output stream \<open>fio\<close> is the list of the strings written to it so far; the file holds
  their concatenation.
\<close>

fun write_dev_sources_loop ::
  "string list \<Rightarrow> (string \<times> package) list \<Rightarrow> log \<Rightarrow> string list \<times> log" where
  "write_dev_sources_loop fio [] lg = (fio, lg)"
| "write_dev_sources_loop fio ((name, pkg) # rest) lg =
     (if install_mode pkg = ''skip'' then write_dev_sources_loop fio rest lg
      else
        (let extras_q = (if extras pkg \<noteq> [] then ''['' @ extras pkg @ '']'' else []);
             subdir = (if subdirectory pkg \<noteq> [] then ''/'' @ subdirectory pkg else []);
             install_options = '' --install-option='' @ [CHR 0x22] @ ''--pre'' @ [CHR 0x22];
             editable = ''-e ./'' @ target pkg @ ''/'' @ name @ subdir @ extras_q
                          @ install_options @ nl
         in write_dev_sources_loop (fio @ [editable]) rest
              (lg @ [(DEBUG, ''-> '' @ strip editable)])))"

definition write_dev_sources ::
  "string list \<Rightarrow> (string \<times> package) list \<Rightarrow> log \<Rightarrow> string list \<times> log" where
  "write_dev_sources fio pkgs lg =
     (let fio1 = fio @ [nl @ replicate 79 CHR ''#'' @ nl];
          fio2 = fio1 @ [''# mxdev development sources'' @ nl]
      in case write_dev_sources_loop fio2 pkgs lg of
           (fio3, lg1) \<Rightarrow> (fio3 @ [nl], lg1))"

fun write_dev_overrides_loop ::
  "string list \<Rightarrow> (string \<times> string) list \<Rightarrow> string list \<Rightarrow> string list" where
  "write_dev_overrides_loop fio [] pkeys = fio"
| "write_dev_overrides_loop fio ((pkg, line) # rest) pkeys =
     (if pkg \<in> set pkeys then
        write_dev_overrides_loop
          (fio @ [''# '' @ line @ '' IGNORE mxdev constraint override. Source override wins!''
                    @ nl]) rest pkeys
      else write_dev_overrides_loop (fio @ [line @ nl]) rest pkeys)"

definition write_dev_overrides ::
  "string list \<Rightarrow> (string \<times> string) list \<Rightarrow> string list \<Rightarrow> string list" where
  "write_dev_overrides fio ovs pkeys =
     (let fio1 = fio @ [nl @ replicate 79 CHR ''#'' @ nl];
          fio2 = fio1 @ [''# mxdev constraint overrides'' @ nl];
          fio3 = write_dev_overrides_loop fio2 ovs pkeys
      in fio3 @ [nl])"

text \<open>
  \<^verbatim>\<open>write\<close> is \<open>write_state\<close> here (\<open>write\<close> is a proof command of Isabelle).
  The files on disk are a map from path to content. \<open>can_open p\<close> says whether
  \<^verbatim>\<open>open(p, "w")\<close> succeeds; when it does not, \<^verbatim>\<open>write\<close> stops with \<open>OSError\<close> and
  what was written before stays.
\<close>

type_synonym files = "string \<rightharpoonup> string"

definition write_state ::
  "(string \<Rightarrow> bool) \<Rightarrow> state \<Rightarrow> files \<Rightarrow> log \<Rightarrow> (files \<times> log) \<times> error option" where
  "write_state can_open st fs lg0 =
     (let rs = requirements st;
          cs = constraints st;
          cfg = configuration st;
          lg1 = lg0 @ [(INFO, replicate 79 CHR ''#''), (INFO, ''# Write outfiles''),
                       (INFO, ''Write [c]: '' @ out_constraints cfg)]
      in if \<not> can_open (out_constraints cfg) then ((fs, lg1), Some OSError)
         else
           (let fio_c = (if overrides cfg \<noteq> []
                         then write_dev_overrides cs (overrides cfg) (package_keys cfg)
                         else cs);
                fs1 = fs(out_constraints cfg \<mapsto> concat fio_c);
                lg2 = lg1 @ [(INFO, ''Write [r]: '' @ out_requirements cfg)]
            in if \<not> can_open (out_requirements cfg) then ((fs1, lg2), Some OSError)
               else
                 (case write_dev_sources
                         [replicate 79 CHR ''#'' @ nl,
                          ''# mxdev combined constraints'' @ nl,
                          ''-c '' @ out_constraints cfg @ nl @ nl]
                         (packages cfg) lg2 of
                    (fio_r, lg3) \<Rightarrow>
                      ((fs1(out_requirements cfg \<mapsto> concat (fio_r @ rs)), lg3), None))))"

subsection \<open>The working-copy adapter\<close>

text \<open>
  Modelled from the spec: the Source Descriptor of section 3 with the fields that the
  Backend Adapter's \<^verbatim>\<open>checkout\<close> and \<^verbatim>\<open>update\<close> read, the adapter calls, and the
  two operations (the module \<^verbatim>\<open>mxdev/vcs/git.py\<close> and the command layer are not among
  the sources at hand; only the test \<^verbatim>\<open>testUpdateWithRevisionPin\<close> is). An operation
  returns the adapter calls it makes, in order, and its outcome.
\<close>

record source_descriptor =
  sd_name :: string
  sd_kind :: string
  sd_url :: string
  sd_path :: string
  sd_revision :: "string option"
  sd_branch :: "string option"
  sd_depth :: "nat option"

datatype adapter_call =
  Clone string string "nat option"
| Fetch
| FetchBranch string "nat option"
| CheckoutRevision string
| SwitchBranch string
| SwitchDefaultBranch
| FastForward

datatype vcs_error = ConfigurationError

datatype vcs_status = Cloned | Updated

text \<open>
  Modelled from the spec: \<^verbatim>\<open>checkout\<close> of section 4.1 (its implementation is not among
  the sources). The validation comes first; then, if the target path does not exist, a
  fresh clone at the requested depth,
  followed by the checkout of the pinned revision, or by the fetch of the branch ref and
  the switch to the branch, or by nothing when neither is set.
\<close>

definition checkout ::
  "bool \<Rightarrow> source_descriptor \<Rightarrow> adapter_call list \<times> (vcs_error + vcs_status)" where
  "checkout path_present d =
     (let clone = (if path_present then [] else [Clone (sd_url d) (sd_path d) (sd_depth d)]) in
      case (sd_revision d, sd_branch d) of
        (Some r, Some b) \<Rightarrow> ([], Inl ConfigurationError)
      | (Some r, None) \<Rightarrow> (clone @ [CheckoutRevision r], Inr Cloned)
      | (None, Some b) \<Rightarrow> (clone @ [FetchBranch b (sd_depth d), SwitchBranch b], Inr Cloned)
      | (None, None) \<Rightarrow> (clone, Inr Cloned))"

text \<open>
  Modelled from the spec: \<^verbatim>\<open>update\<close> of section 4.1 (its implementation is not among
  the sources). The validation comes first; a missing path delegates to \<^verbatim>\<open>checkout\<close>;
  otherwise the remote is fetched and the working copy is moved to the pinned revision,
  or switched to the pinned branch and fast-forwarded, or switched to the default branch.
\<close>

definition update ::
  "bool \<Rightarrow> source_descriptor \<Rightarrow> adapter_call list \<times> (vcs_error + vcs_status)" where
  "update path_present d =
     (case (sd_revision d, sd_branch d) of
        (Some r, Some b) \<Rightarrow> ([], Inl ConfigurationError)
      | (Some r, None) \<Rightarrow>
          (if path_present then ([Fetch, CheckoutRevision r], Inr Updated) else checkout False d)
      | (None, Some b) \<Rightarrow>
          (if path_present then ([Fetch, SwitchBranch b, FastForward], Inr Updated)
           else checkout False d)
      | (None, None) \<Rightarrow>
          (if path_present then ([Fetch, SwitchDefaultBranch, FastForward], Inr Updated)
           else checkout False d))"

subsection \<open>Specification-side notions\<close>

text \<open>
  The annotation that replaces a suppressed line, the reasons whose rules match a key in
  the order in which \<^verbatim>\<open>process_line\<close> tests them, and the delimiter lines around a
  block.
\<close>

definition disabled :: "string \<Rightarrow> string \<Rightarrow> string" where
  "disabled reason l = ''# '' @ strip l @ '' -> mxdev disabled ('' @ reason @ '')'' @ nl"

definition matching_reasons ::
  "string \<Rightarrow> string list \<Rightarrow> string list \<Rightarrow> string list \<Rightarrow> string \<Rightarrow> string list" where
  "matching_reasons key pkeys okeys ikeys variety =
     (if key \<in> set pkeys then [''source''] else [])
     @ (if variety = ''c'' \<and> key \<in> set okeys then [''override''] else [])
     @ (if variety = ''c'' \<and> key \<in> set ikeys then [''ignore''] else [])"

definition annotate :: "string \<Rightarrow> string list \<Rightarrow> string" where
  "annotate l reasons = foldl (\<lambda>acc reason. disabled reason acc) l reasons"

definition hash_rule :: string where
  "hash_rule = replicate 79 CHR ''#''"

definition requirements_block :: "string \<Rightarrow> string list \<Rightarrow> string list" where
  "requirements_block origin body =
     [hash_rule @ nl, ''# begin requirements from: '' @ origin @ nl @ nl]
     @ body
     @ [nl, ''# end requirements from: '' @ origin @ nl, hash_rule @ nl]"

definition constraints_block :: "string \<Rightarrow> string list \<Rightarrow> string list" where
  "constraints_block origin body =
     [hash_rule @ nl, ''# begin constraints from: '' @ origin @ nl, nl]
     @ body
     @ [nl, ''# end constraints from: '' @ origin @ nl, hash_rule @ nl @ nl]"



text \<open>
  The stream that \<^verbatim>\<open>resolve_dependencies\<close> reads for a non-blank target: that of the
  local file, the empty one for a local file that \<^verbatim>\<open>exists()\<close> does not find, that of
  the response for a URL; \<open>None\<close> when getting it raises.
\<close>

definition source_lines :: "world \<Rightarrow> string \<Rightarrow> stream option" where
  "source_lines w f =
     (case url_scheme w f of
        None \<Rightarrow> None
      | Some scheme \<Rightarrow>
          (if scheme = [] then
             (case path_exists w f of
                Inl e \<Rightarrow> None
              | Inr True \<Rightarrow> path_open w f
              | Inr False \<Rightarrow> Some ([], None))
           else urlopen w f))"

definition override_entry :: "string list \<Rightarrow> string \<times> string \<Rightarrow> string" where
  "override_entry pkeys entry =
     (if fst entry \<in> set pkeys
      then ''# '' @ snd entry @ '' IGNORE mxdev constraint override. Source override wins!'' @ nl
      else snd entry @ nl)"

definition overrides_section :: "string list \<Rightarrow> (string \<times> string) list \<Rightarrow> string" where
  "overrides_section pkeys ovs =
     nl @ hash_rule @ nl @ ''# mxdev constraint overrides'' @ nl
     @ concat (map (override_entry pkeys) ovs) @ nl"

text \<open>The three functions started with an empty log.\<close>

definition line_run ::
  "nat \<Rightarrow> world \<Rightarrow> pyline \<Rightarrow> string list \<Rightarrow> string list \<Rightarrow> string list \<Rightarrow> string
    \<Rightarrow> log \<times> (error + merged)" where
  "line_run n w l pkeys okeys ikeys variety = process_line n w l pkeys okeys ikeys variety []"

definition io_run ::
  "nat \<Rightarrow> world \<Rightarrow> stream \<Rightarrow> string list \<Rightarrow> string list
    \<Rightarrow> string list \<Rightarrow> string list \<Rightarrow> string list \<Rightarrow> string \<Rightarrow> log \<times> (error + merged)" where
  "io_run n w fio rs cs pkeys okeys ikeys variety =
     process_io n w fio rs cs pkeys okeys ikeys variety []"

definition resolve_run ::
  "nat \<Rightarrow> world \<Rightarrow> string \<Rightarrow> string list \<Rightarrow> string list \<Rightarrow> string list \<Rightarrow> string
    \<Rightarrow> log \<times> (error + merged)" where
  "resolve_run n w f pkeys okeys ikeys variety =
     resolve_dependencies n w f pkeys okeys ikeys variety []"

text \<open>
  A plain line is one that decodes and is not a directive; \<open>emitted\<close> is what
  \<^verbatim>\<open>process_line\<close> puts into the output for it.
\<close>

definition plain :: "world \<Rightarrow> pyline \<Rightarrow> bool" where
  "plain w l =
     (case decode_line w l of
        None \<Rightarrow> False
      | Some s \<Rightarrow> \<not> startswith s ''-c'' \<and> \<not> startswith s ''-r'')"

definition emitted ::
  "world \<Rightarrow> string list \<Rightarrow> string list \<Rightarrow> string list \<Rightarrow> string \<Rightarrow> pyline \<Rightarrow> string" where
  "emitted w pkeys okeys ikeys variety l =
     (case decode_line w l of
        None \<Rightarrow> []
      | Some s \<Rightarrow>
          (case requirement_key w s of
             None \<Rightarrow> s
           | Some key \<Rightarrow> annotate s (matching_reasons key pkeys okeys ikeys variety)))"

subsection \<open>A small world for the scenarios\<close>

text \<open>
  Five local files and no network. \<open>scenario_key\<close> gives the parser's answer on the
  two specifier lines of these files, \<^verbatim>\<open>Requirement.parse("pkg==1.0\n").key == "pkg"\<close>
  and \<^verbatim>\<open>Requirement.parse("other==2.0\n").key == "other"\<close>, and lets it raise on
  everything else, as it does on the pip option line \<^verbatim>\<open>-e ./local\<close> and on the lines
  \<^verbatim>\<open>-r\<close> and \<^verbatim>\<open>-random junk\<close>. The names are single path components: one longer
  than 255 characters makes \<^verbatim>\<open>stat\<close> fail with ENAMETOOLONG, a name that is none of the
  five files makes it fail with ENOENT.
\<close>

definition scenario_key :: "string \<Rightarrow> string option" where
  "scenario_key l =
     (if l = ''pkg==1.0'' @ nl then Some ''pkg''
      else if l = ''other==2.0'' @ nl then Some ''other''
      else None)"

definition scenario_files :: "string \<Rightarrow> stream option" where
  "scenario_files p =
     (if p = ''constraints.txt''
      then Some ([Str (''-r deps.txt'' @ nl), Str (''pkg==1.0'' @ nl)], None)
      else if p = ''deps.txt'' then Some ([Str (''other==2.0'' @ nl)], None)
      else if p = ''local.txt''
      then Some ([Str (''-e ./local'' @ nl), Str (''pkg==1.0'' @ nl)], None)
      else if p = ''broken.txt'' then Some ([Str (''pkg==1.0'' @ nl), Str (''-r'' @ nl)], None)
      else if p = ''empty.txt'' then Some ([], None)
      else None)"

definition scenario_stat :: "string \<Rightarrow> stat_outcome" where
  "scenario_stat p =
     (if 255 < length p then StatOSError ENAMETOOLONG
      else if scenario_files p \<noteq> None then StatOk
      else StatOSError ENOENT)"

definition scenario_world :: world where
  "scenario_world =
     \<lparr> requirement_key = scenario_key,
       decode_utf8 = (\<lambda>b. if list_all (\<lambda>c. (of_char c :: nat) < 128) b then Some b else None),
       url_scheme = (\<lambda>x. if startswith x ''https://'' then Some ''https'' else Some []),
       path_stat = scenario_stat,
       path_open = scenario_files,
       urlopen = (\<lambda>x. None) \<rparr>"

text \<open>
  A state for the writer: one resolved constraint line, two configured overrides, the
  first of them for the locally managed package \<^verbatim>\<open>pkg\<close>.
\<close>

definition scenario_state :: state where
  "scenario_state =
     \<lparr> configuration =
         \<lparr> infile = ''constraints.txt'',
           out_requirements = ''requirements-mxdev.txt'',
           out_constraints = ''constraints-mxdev.txt'',
           package_keys = [''pkg''],
           override_keys = [''pkg'', ''other''],
           ignore_keys = [],
           overrides = [(''pkg'', ''pkg==2.0''), (''other'', ''other==3.0'')],
           packages = [] \<rparr>,
       requirements = [],
       constraints = [''x==1'' @ nl] \<rparr>"

text \<open>A source descriptor with both a revision and a branch, as in the test.\<close>

definition scenario_source :: source_descriptor where
  "scenario_source =
     \<lparr> sd_name = ''egg'', sd_kind = ''git'', sd_url = ''file:///repository'',
       sd_path = ''src/egg-failed'', sd_revision = Some ''0123abc'',
       sd_branch = Some ''test'', sd_depth = None \<rparr>"

section \<open>Properties\<close>

subsection \<open>autocorrect\_pip\_url\<close>

lemma git_plus_no_rewrite_prefix:
  "\<not> startswith (''git+'' @ s) ''git@''"
  "\<not> startswith (''git+'' @ s) ''ssh://''"
  "\<not> startswith (''git+'' @ s) ''https://''"
  by (simp_all add: startswith_def)

text \<open>
  C10. \<^verbatim>\<open>autocorrect_pip_url\<close> is idempotent: a rewritten URL starts with \<^verbatim>\<open>git+\<close>,
  which none of the three rewrite prefixes matches, and a URL that is not rewritten
  matches none of them either.
\<close>

theorem autocorrect_pip_url_idempotent:
  "autocorrect_pip_url (autocorrect_pip_url s) = autocorrect_pip_url s"
proof -
  have fixed: "autocorrect_pip_url (''git+'' @ t) = ''git+'' @ t" for t
    unfolding autocorrect_pip_url_def
    using git_plus_no_rewrite_prefix [of t] by simp
  have rewritten: "\<exists>t. autocorrect_pip_url s = ''git+'' @ t"
    if "startswith s ''git@'' \<or> startswith s ''ssh://'' \<or> startswith s ''https://''"
  proof (cases "startswith s ''git@''")
    case True
    then have "autocorrect_pip_url s = ''git+'' @ (''ssh://'' @ replace_char CHR '':'' CHR ''/'' s)"
      unfolding autocorrect_pip_url_def by simp
    then show ?thesis by blast
  next
    case False
    with that have "autocorrect_pip_url s = ''git+'' @ s"
      unfolding autocorrect_pip_url_def by auto
    then show ?thesis by blast
  qed
  show ?thesis
  proof (cases "startswith s ''git@'' \<or> startswith s ''ssh://'' \<or> startswith s ''https://''")
    case True
    from rewritten [OF True] obtain t where "autocorrect_pip_url s = ''git+'' @ t" ..
    then show ?thesis using fixed [of t] by simp
  next
    case False
    then show ?thesis
      unfolding autocorrect_pip_url_def by simp
  qed
qed


subsection \<open>Plain lines\<close>

lemma process_line_plain:
  assumes "decode_line w l = Some s" "\<not> startswith s ''-c''" "\<not> startswith s ''-r''"
  shows "process_line n w l pk ok ik v lg =
    (lg @ [(DEBUG, ''Process Line ['' @ v @ '']: '' @ strip s)],
     Inr (if v = ''c'' then ([], [emitted w pk ok ik v l]) else ([emitted w pk ok ik v l], [])))"
  using assms
  by (simp add: process_line.simps emitted_def annotate_def matching_reasons_def disabled_def
        Let_def split: option.splits)

lemma process_io_plain_c:
  assumes "list_all (plain w) fio"
  shows "snd (process_io n w (fio, None) rs cs pk ok ik ''c'' lg) =
     Inr (rs, cs @ map (emitted w pk ok ik ''c'') fio)"
  using assms
proof (induction fio arbitrary: cs lg)
  case Nil
  show ?case by simp
next
  case (Cons l fio)
  from Cons.prems obtain s where s: "decode_line w l = Some s"
      "\<not> startswith s ''-c''" "\<not> startswith s ''-r''"
    by (auto simp: plain_def split: option.splits)
  from Cons.prems have rest: "list_all (plain w) fio" by simp
  show ?case
    by (simp add: process_line_plain [OF s] Cons.IH [OF rest])
qed

lemma process_io_plain_r:
  assumes "list_all (plain w) fio" "v \<noteq> ''c''"
  shows "snd (process_io n w (fio, None) rs cs pk ok ik v lg) =
     Inr (rs @ map (emitted w pk ok ik v) fio, cs)"
  using assms
proof (induction fio arbitrary: rs lg)
  case Nil
  show ?case by simp
next
  case (Cons l fio)
  from Cons.prems obtain s where s: "decode_line w l = Some s"
      "\<not> startswith s ''-c''" "\<not> startswith s ''-r''"
    by (auto simp: plain_def split: option.splits)
  from Cons.prems have rest: "list_all (plain w) fio" by simp
  show ?case
    using Cons.prems(2) by (simp add: process_line_plain [OF s] Cons.IH [OF rest])
qed

lemma process_io_plain:
  assumes "list_all (plain w) fio"
  shows "snd (process_io n w (fio, None) rs cs pk ok ik v lg) =
     Inr (if v = ''c'' then (rs, cs @ map (emitted w pk ok ik v) fio)
          else (rs @ map (emitted w pk ok ik v) fio, cs))"
  using process_io_plain_c [OF assms] process_io_plain_r [OF assms] by simp

subsection \<open>The log does not influence the result\<close>

text \<open>
  Each of the three functions appends to the log it is given and computes its result
  without looking at it. The proof goes up the call chain at a fixed depth and then by
  induction on the depth.
\<close>

lemma process_line_log:
  assumes R: "\<And>f v lg. resolve_dependencies n w f pk ok ik v lg =
      (lg @ fst (resolve_run n w f pk ok ik v), snd (resolve_run n w f pk ok ik v))"
  shows "process_line n w l pk ok ik v lg =
      (lg @ fst (line_run n w l pk ok ik v), snd (line_run n w l pk ok ik v))"
  unfolding line_run_def
  by (simp add: process_line.simps R Let_def split: option.splits list.splits)

lemma process_io_log:
  assumes P: "\<And>l lg. process_line n w l pk ok ik v lg =
      (lg @ fst (line_run n w l pk ok ik v), snd (line_run n w l pk ok ik v))"
  shows "process_io n w (fio, stop) rs cs pk ok ik v lg =
      (lg @ fst (io_run n w (fio, stop) rs cs pk ok ik v),
       snd (io_run n w (fio, stop) rs cs pk ok ik v))"
proof (induction fio arbitrary: rs cs lg)
  case Nil
  show ?case by (simp add: io_run_def split: option.splits)
next
  case (Cons l fio)
  show ?case
  proof (cases "snd (line_run n w l pk ok ik v)")
    case (Inl e)
    then show ?thesis by (simp add: io_run_def P)
  next
    case (Inr m)
    obtain a b where m: "m = (a, b)" by (cases m)
    have step: "process_io n w (l # fio, stop) rs cs pk ok ik v lg' =
        process_io n w (fio, stop) (rs @ a) (cs @ b) pk ok ik v
          (lg' @ fst (line_run n w l pk ok ik v))"
      for lg'
      using Inr m by (simp add: P)
    show ?thesis
      unfolding io_run_def step
      by (simp add: Cons.IH [of _ _ "lg @ fst (line_run n w l pk ok ik v)"]
            Cons.IH [of _ _ "fst (line_run n w l pk ok ik v)"])
  qed
qed

lemma resolve_dependencies_log:
  "resolve_dependencies n w f pk ok ik v lg =
      (lg @ fst (resolve_run n w f pk ok ik v), snd (resolve_run n w f pk ok ik v))"
proof (induction n arbitrary: f v lg)
  case 0
  show ?case by (simp add: resolve_run_def)
next
  case (Suc n)
  have P: "process_line n w l pk ok ik v lg =
      (lg @ fst (line_run n w l pk ok ik v), snd (line_run n w l pk ok ik v))" for l v lg
    by (rule process_line_log) (rule Suc.IH)
  have Q: "process_io n w st rs cs pk ok ik v lg =
      (lg @ fst (io_run n w st rs cs pk ok ik v), snd (io_run n w st rs cs pk ok ik v))"
    for st rs cs v lg
  proof (cases st)
    case (Pair fio stop)
    show ?thesis unfolding Pair by (rule process_io_log) (rule P)
  qed
  have leaf: ?case
    if red: "\<And>lg'. resolve_dependencies (Suc n) w f pk ok ik v lg' =
       (case process_io n w st [] [] pk ok ik v (lg' @ [(INFO, ''Read ['' @ v @ '']: '' @ f)]) of
          (lg2, Inl e) \<Rightarrow> (lg2, Inl e)
        | (lg2, Inr (rs, cs)) \<Rightarrow>
            (lg2, Inr (if rs \<noteq> [] \<and> v = ''r'' then requirements_block f rs else rs,
                       if cs \<noteq> [] \<and> v = ''c'' then constraints_block f cs else cs)))"
    for st
  proof (cases "snd (io_run n w st [] [] pk ok ik v)")
    case (Inl e)
    then show ?thesis
      unfolding resolve_run_def red by (simp add: Q del: process_io.simps)
  next
    case (Inr m)
    obtain a b where "m = (a, b)" by (cases m)
    with Inr show ?thesis
      unfolding resolve_run_def red by (simp add: Q del: process_io.simps)
  qed
  note blocks = requirements_block_def constraints_block_def hash_rule_def
  show ?case
  proof (cases "strip f = []")
    case True
    then show ?thesis by (simp add: resolve_run_def)
  next
    case nb: False
    show ?thesis
    proof (cases "url_scheme w f")
      case None
      with nb show ?thesis by (simp add: resolve_run_def)
    next
      case (Some sch)
      show ?thesis
      proof (cases "sch = []")
        case local: True
        show ?thesis
        proof (cases "path_exists w f")
          case (Inl e)
          with nb Some local show ?thesis by (simp add: resolve_run_def)
        next
          case (Inr present)
          show ?thesis
          proof (cases present)
            case False
            with nb Some local Inr show ?thesis by (simp add: resolve_run_def)
          next
            case True
            show ?thesis
            proof (cases "path_open w f")
              case None
              with nb Some local Inr True show ?thesis by (simp add: resolve_run_def)
            next
              case (Some st)
              show ?thesis
                by (rule leaf [of st])
                   (unfold blocks, simp add: nb \<open>url_scheme w f = Some sch\<close> local Inr True Some
                      Let_def del: process_io.simps)
            qed
          qed
        qed
      next
        case remote: False
        show ?thesis
        proof (cases "urlopen w f")
          case None
          with nb Some remote show ?thesis by (simp add: resolve_run_def)
        next
          case (Some st)
          show ?thesis
            by (rule leaf [of st])
               (unfold blocks, simp add: nb \<open>url_scheme w f = Some sch\<close> remote Some Let_def
                  del: process_io.simps)
        qed
      qed
    qed
  qed
qed

lemmas scenario_simps =
  scenario_world_def scenario_key_def scenario_files_def scenario_stat_def path_exists_def
  decode_line_def startswith_def strip_def isspace_def

subsection \<open>The nested-include scenario\<close>

text \<open>
  C3. The entry point is resolved in constraint context and holds the two lines
  \<^verbatim>\<open>-r deps.txt\<close> and \<^verbatim>\<open>pkg==1.0\<close>; \<^verbatim>\<open>deps.txt\<close> holds \<^verbatim>\<open>other==2.0\<close>; the three
  key lists are empty. Then the requirements returned are exactly the line
  \<^verbatim>\<open>other==2.0\<close> between the begin/end delimiter lines naming \<^verbatim>\<open>deps.txt\<close>, and the
  constraints returned are exactly the line \<^verbatim>\<open>pkg==1.0\<close> between the delimiter lines
  naming the entry point. Two levels of nesting are needed, and any depth bound of at
  least two gives this result.
\<close>

theorem nested_requirements_in_constraints_scenario:
  assumes "strip entry \<noteq> []" "url_scheme w entry = Some []" "path_exists w entry = Inr True"
    "path_open w entry = Some ([Str ''-r deps.txt\<newline>'', Str ''pkg==1.0\<newline>''], None)"
    "url_scheme w ''deps.txt'' = Some []" "path_exists w ''deps.txt'' = Inr True"
    "path_open w ''deps.txt'' = Some ([Str ''other==2.0\<newline>''], None)"
  shows "snd (resolve_dependencies (Suc (Suc n)) w entry [] [] [] ''c'' lg) =
     Inr (requirements_block ''deps.txt'' [''other==2.0\<newline>''],
          constraints_block entry [''pkg==1.0\<newline>''])"
proof -
  have p1: "process_line n w (Str ''other==2.0\<newline>'') [] [] [] ''r'' lg' =
     (lg' @ [(DEBUG, ''Process Line [r]: other==2.0'')], Inr ([''other==2.0\<newline>''], []))"
    for lg'
    by (simp add: process_line.simps decode_line_def startswith_def nl_def strip_def isspace_def
          Let_def split: option.splits)
  have inner: "resolve_dependencies (Suc n) w ''deps.txt'' [] [] [] ''r'' lg' =
     (lg' @ [(INFO, ''Read [r]: deps.txt''), (DEBUG, ''Process Line [r]: other==2.0'')],
      Inr (requirements_block ''deps.txt'' [''other==2.0\<newline>''], []))" for lg'
    using assms(5-7)
    by (simp add: p1 Let_def requirements_block_def hash_rule_def strip_def isspace_def)
  have p2: "process_line (Suc n) w (Str ''-r deps.txt\<newline>'') [] [] [] ''c'' lg' =
     resolve_dependencies (Suc n) w ''deps.txt'' [] [] [] ''r''
       (lg' @ [(DEBUG, ''Process Line [c]: -r deps.txt'')])" for lg'
    by (simp add: process_line.simps decode_line_def startswith_def nl_def strip_def isspace_def
          Let_def del: resolve_dependencies.simps)
  have p3: "process_line (Suc n) w (Str ''pkg==1.0\<newline>'') [] [] [] ''c'' lg' =
     (lg' @ [(DEBUG, ''Process Line [c]: pkg==1.0'')], Inr ([], [''pkg==1.0\<newline>'']))"
    for lg'
    by (simp add: process_line.simps decode_line_def startswith_def nl_def strip_def isspace_def
          Let_def split: option.splits)
  show ?thesis
    using assms(1-4)
    apply (subst resolve_dependencies.simps(2))
    apply (simp add: p2 p3 inner Let_def constraints_block_def hash_rule_def
             del: resolve_dependencies.simps)
    done
qed

theorem nested_requirements_in_constraints_scenario_witness:
  "strip ''constraints.txt'' \<noteq> []
   \<and> url_scheme scenario_world ''constraints.txt'' = Some []
   \<and> path_exists scenario_world ''constraints.txt'' = Inr True
   \<and> path_open scenario_world ''constraints.txt''
       = Some ([Str ''-r deps.txt\<newline>'', Str ''pkg==1.0\<newline>''], None)
   \<and> url_scheme scenario_world ''deps.txt'' = Some []
   \<and> path_exists scenario_world ''deps.txt'' = Inr True
   \<and> path_open scenario_world ''deps.txt'' = Some ([Str ''other==2.0\<newline>''], None)
   \<and> snd (resolve_dependencies (Suc (Suc 0)) scenario_world ''constraints.txt'' [] [] [] ''c'' [])
       = Inr (requirements_block ''deps.txt'' [''other==2.0\<newline>''],
              constraints_block ''constraints.txt'' [''pkg==1.0\<newline>''])"
proof -
  have h1: "strip ''constraints.txt'' \<noteq> []"
    by (simp add: strip_def isspace_def)
  have h2: "url_scheme scenario_world ''constraints.txt'' = Some []"
    by (simp add: scenario_world_def startswith_def)
  have h3: "path_exists scenario_world ''constraints.txt'' = Inr True"
    by (simp add: path_exists_def scenario_world_def scenario_stat_def scenario_files_def)
  have h4: "path_open scenario_world ''constraints.txt''
       = Some ([Str ''-r deps.txt\<newline>'', Str ''pkg==1.0\<newline>''], None)"
    by (simp add: scenario_world_def scenario_files_def nl_def)
  have h5: "url_scheme scenario_world ''deps.txt'' = Some []"
    by (simp add: scenario_world_def startswith_def)
  have h6: "path_exists scenario_world ''deps.txt'' = Inr True"
    by (simp add: path_exists_def scenario_world_def scenario_stat_def scenario_files_def)
  have h7: "path_open scenario_world ''deps.txt'' = Some ([Str ''other==2.0\<newline>''], None)"
    by (simp add: scenario_world_def scenario_files_def nl_def)
  from nested_requirements_in_constraints_scenario [OF h1 h2 h3 h4 h5 h6 h7, of 0 "[]"]
  show ?thesis using h1 h2 h3 h4 h5 h6 h7 by blast
qed

subsection \<open>Running the resolution again\<close>

text \<open>
  C7. Resolution is deterministic and can be repeated: for every world (file contents,
  parser and network answers), target, key lists and variety, a second run that starts
  from the logger state the first run left behind returns the same result as the first,
  the same requirements and constraints or the same error.
\<close>

theorem resolve_dependencies_rerun:
  "snd (resolve_dependencies n w f pk ok ik v
          (fst (resolve_dependencies n w f pk ok ik v lg)))
   = snd (resolve_dependencies n w f pk ok ik v lg)"
proof -
  have "snd (resolve_dependencies n w f pk ok ik v lg') = snd (resolve_run n w f pk ok ik v)"
    for lg'
    using resolve_dependencies_log [of n w f pk ok ik v lg'] by simp
  then show ?thesis by simp
qed

theorem resolve_dependencies_rerun_witness:
  "snd (resolve_dependencies (Suc (Suc 0)) scenario_world ''constraints.txt'' [] [] [] ''c''
          (fst (resolve_dependencies (Suc (Suc 0)) scenario_world ''constraints.txt''
                  [] [] [] ''c'' [])))
   = snd (resolve_dependencies (Suc (Suc 0)) scenario_world ''constraints.txt'' [] [] [] ''c'' [])"
  by (rule resolve_dependencies_rerun)

subsection \<open>A local path that does not exist\<close>

text \<open>
  C8, as the code has it. For a non-blank target without a URL scheme for which
  \<^verbatim>\<open>Path(target).exists()\<close> answers \<open>False\<close> (\<^verbatim>\<open>stat\<close> fails with ENOENT, ENOTDIR,
  EBADF or ELOOP, or the path cannot be encoded), \<^verbatim>\<open>resolve_dependencies\<close> returns
  empty requirements and empty constraints and raises nothing. What it logs are two
  records at level INFO, the second saying that the file does not exist and that an
  empty file is assumed; it logs no record at level WARNING.
\<close>

theorem missing_path_is_empty_result:
  assumes "strip f \<noteq> []" "url_scheme w f = Some []" "path_exists w f = Inr False"
  shows "resolve_dependencies (Suc n) w f pk ok ik v lg =
     (lg @ [(INFO, ''Read ['' @ v @ '']: '' @ f),
            (INFO, ''Can not read '' @ (if v = ''r'' then ''requirements'' else ''constraints'')
               @ '' file '' @ [CHR 0x27] @ f @ [CHR 0x27]
               @ '', it does not exist. Empty file assumed.'')],
      Inr ([], []))"
  using assms by (simp add: Let_def)

theorem missing_path_is_empty_result_witness:
  "strip ''missing.txt'' \<noteq> []
   \<and> url_scheme scenario_world ''missing.txt'' = Some []
   \<and> path_stat scenario_world ''missing.txt'' = StatOSError ENOENT
   \<and> path_exists scenario_world ''missing.txt'' = Inr False
   \<and> resolve_dependencies (Suc 0) scenario_world ''missing.txt'' [] [] [] ''r'' [] =
       ([(INFO, ''Read [r]: missing.txt''),
         (INFO, ''Can not read requirements file '' @ [CHR 0x27] @ ''missing.txt'' @ [CHR 0x27]
            @ '', it does not exist. Empty file assumed.'')],
        Inr ([], []))"
proof -
  have h1: "strip ''missing.txt'' \<noteq> []"
    by (simp add: strip_def isspace_def)
  have h2: "url_scheme scenario_world ''missing.txt'' = Some []"
    by (simp add: scenario_world_def startswith_def)
  have h0: "path_stat scenario_world ''missing.txt'' = StatOSError ENOENT"
    by (simp add: scenario_world_def scenario_stat_def scenario_files_def)
  have h3: "path_exists scenario_world ''missing.txt'' = Inr False"
    by (simp add: path_exists_def h0)
  from missing_path_is_empty_result [OF h1 h2 h3, of 0 "[]" "[]" "[]" "''r''" "[]"]
  show ?thesis using h0 h1 h2 h3 by simp
qed

text \<open>
  A name of 300 characters does not exist on disk, and \<^verbatim>\<open>stat\<close> fails on it with
  ENAMETOOLONG, which \<^verbatim>\<open>exists()\<close> does not swallow: \<^verbatim>\<open>resolve_dependencies\<close> raises
  \<open>OSError\<close> instead of returning an empty result. And at the missing path
  \<^verbatim>\<open>missing.txt\<close>, where the result is empty, the records logged are at level INFO and
  none is at level WARNING.
\<close>

theorem missing_path_raises_or_logs_info:
  "path_stat scenario_world (replicate 300 CHR ''a'') = StatOSError ENAMETOOLONG
   \<and> url_scheme scenario_world (replicate 300 CHR ''a'') = Some []
   \<and> snd (resolve_dependencies (Suc 0) scenario_world (replicate 300 CHR ''a'') [] [] [] ''r'' [])
     = Inl OSError
   \<and> map fst (fst (resolve_dependencies (Suc 0) scenario_world ''missing.txt'' [] [] [] ''r'' []))
     = [INFO, INFO]
   \<and> WARNING \<notin> set (map fst
        (fst (resolve_dependencies (Suc 0) scenario_world ''missing.txt'' [] [] [] ''r'' [])))"
proof -
  let ?p = "replicate 300 CHR ''a''"
  have st: "path_stat scenario_world ?p = StatOSError ENAMETOOLONG"
    by (simp add: scenario_world_def scenario_stat_def)
  have ex: "path_exists scenario_world ?p = Inl OSError"
    by (simp add: path_exists_def st)
  have ne: "?p \<noteq> []" by simp
  have "dropWhile isspace ?p = ?p"
    by (rule dropWhile_eq_self_iff [THEN iffD2]) (simp add: isspace_def)
  moreover have "rev ?p = ?p" by simp
  ultimately have sp: "strip ?p = ?p" by (simp add: strip_def)
  have "take 8 ?p = replicate 8 CHR ''a''" by simp
  moreover have "replicate 8 CHR ''a'' \<noteq> ''https://''" by (simp add: eval_nat_numeral)
  ultimately have "\<not> startswith ?p ''https://''"
    by (simp add: startswith_def)
  then have sch: "url_scheme scenario_world ?p = Some []"
    by (simp add: scenario_world_def)
  have long: "snd (resolve_dependencies (Suc 0) scenario_world ?p [] [] [] ''r'' []) = Inl OSError"
    using ne by (simp add: sp sch ex Let_def)
  have info: "map fst
      (fst (resolve_dependencies (Suc 0) scenario_world ''missing.txt'' [] [] [] ''r'' []))
     = [INFO, INFO]"
    by (simp add: scenario_simps)
  from st sch long info show ?thesis by simp
qed

subsection \<open>Suppression of a line\<close>

text \<open>
  C1, as the code has it. The three tests of \<^verbatim>\<open>process_line\<close> are consecutive
  \<^verbatim>\<open>if\<close> statements, not alternatives: for a non-directive line in constraint context
  every matching rule is applied, in the order \<open>package_keys\<close>, \<open>override_keys\<close>,
  \<open>ignore_keys\<close>, each to the line the one before produced. The emitted line is
  commented out once per matching rule and carries the reasons of all of them, in that
  order; it carries a single reason only when the key is in a single list.
\<close>

theorem constraint_line_carries_every_matching_reason:
  assumes "decode_line w l = Some s" "\<not> startswith s ''-c''" "\<not> startswith s ''-r''"
    "requirement_key w s = Some key"
  shows "snd (process_line n w l pk ok ik ''c'' lg) =
     Inr ([], [annotate s (matching_reasons key pk ok ik ''c'')])"
  using assms(4) by (simp add: process_line_plain [OF assms(1-3)] emitted_def assms(1))

theorem constraint_line_carries_every_matching_reason_witness:
  "decode_line scenario_world (Str ''pkg==1.0\<newline>'') = Some ''pkg==1.0\<newline>''
   \<and> \<not> startswith ''pkg==1.0\<newline>'' ''-c'' \<and> \<not> startswith ''pkg==1.0\<newline>'' ''-r''
   \<and> requirement_key scenario_world ''pkg==1.0\<newline>'' = Some ''pkg''
   \<and> matching_reasons ''pkg'' [''pkg''] [''pkg''] [] ''c'' = [''source'', ''override'']
   \<and> snd (process_line 0 scenario_world (Str ''pkg==1.0\<newline>'') [''pkg''] [''pkg''] [] ''c'' [])
       = Inr ([], [disabled ''override'' (disabled ''source'' ''pkg==1.0\<newline>'')])"
proof -
  have h1: "decode_line scenario_world (Str ''pkg==1.0\<newline>'') = Some ''pkg==1.0\<newline>''"
    by (simp add: decode_line_def)
  have h2: "\<not> startswith ''pkg==1.0\<newline>'' ''-c''" by (simp add: startswith_def)
  have h3: "\<not> startswith ''pkg==1.0\<newline>'' ''-r''" by (simp add: startswith_def)
  have h4: "requirement_key scenario_world ''pkg==1.0\<newline>'' = Some ''pkg''"
    by (simp add: scenario_world_def scenario_key_def nl_def)
  have h5: "matching_reasons ''pkg'' [''pkg''] [''pkg''] [] ''c'' = [''source'', ''override'']"
    by (simp add: matching_reasons_def)
  from constraint_line_carries_every_matching_reason [OF h1 h2 h3 h4, of 0 "[''pkg'']" "[''pkg'']" "[]" "[]"]
  show ?thesis using h1 h2 h3 h4 h5 by (simp add: annotate_def)
qed

text \<open>
  With \<^verbatim>\<open>pkg\<close> both locally managed and overridden, the constraint line
  \<^verbatim>\<open>pkg==1.0\<close> comes out with both reasons, not with the first one only.
\<close>

theorem first_match_only_counterexample:
  "snd (process_line 0 scenario_world (Str ''pkg==1.0\<newline>'') [''pkg''] [''pkg''] [] ''c'' [])
     = Inr ([], [''# # pkg==1.0 -> mxdev disabled (source) -> mxdev disabled (override)\<newline>''])
   \<and> snd (process_line 0 scenario_world (Str ''pkg==1.0\<newline>'') [''pkg''] [''pkg''] [] ''c'' [])
     \<noteq> Inr ([], [''# pkg==1.0 -> mxdev disabled (source)\<newline>''])"
  by (simp add: process_line.simps scenario_simps nl_def)

lemma annotate_comment:
  "reasons \<noteq> [] \<Longrightarrow> startswith (annotate s reasons) ''# ''"
proof (induction reasons rule: rev_induct)
  case Nil
  then show ?case by simp
next
  case (snoc r reasons)
  show ?case by (simp add: annotate_def disabled_def startswith_def)
qed

text \<open>
  C4. For a non-directive line whose package key is \<open>key\<close>: in requirement context
  (variety \<^verbatim>\<open>r\<close>) the line is emitted unchanged unless \<open>key\<close> is in \<open>package_keys\<close>,
  whatever \<open>override_keys\<close> and \<open>ignore_keys\<close> hold, and with \<open>key\<close> in
  \<open>package_keys\<close> it is emitted as the comment with the reason \<^verbatim>\<open>disabled (source)\<close>;
  in constraint context (variety \<^verbatim>\<open>c\<close>) it is emitted as a comment when \<open>key\<close> is in
  any of the three lists and unchanged otherwise.
\<close>

theorem override_and_ignore_suppress_constraints_only:
  assumes "decode_line w l = Some s" "\<not> startswith s ''-c''" "\<not> startswith s ''-r''"
    "requirement_key w s = Some key"
  shows "snd (process_line n w l pk ok ik ''r'' lg)
           = Inr ([if key \<in> set pk then disabled ''source'' s else s], [])
     \<and> (\<exists>out. snd (process_line n w l pk ok ik ''c'' lg) = Inr ([], [out])
            \<and> (if key \<in> set pk \<or> key \<in> set ok \<or> key \<in> set ik
                then startswith out ''# '' else out = s))"
proof -
  have r: "snd (process_line n w l pk ok ik ''r'' lg)
           = Inr ([if key \<in> set pk then disabled ''source'' s else s], [])"
    using assms(4)
    by (simp add: process_line_plain [OF assms(1-3)] emitted_def assms(1)
          matching_reasons_def annotate_def)
  have c: "snd (process_line n w l pk ok ik ''c'' lg)
           = Inr ([], [annotate s (matching_reasons key pk ok ik ''c'')])"
    using assms(4) by (simp add: process_line_plain [OF assms(1-3)] emitted_def assms(1))
  have e: "matching_reasons key pk ok ik ''c'' = []"
    if "\<not> (key \<in> set pk \<or> key \<in> set ok \<or> key \<in> set ik)"
    using that by (simp add: matching_reasons_def)
  have ne: "matching_reasons key pk ok ik ''c'' \<noteq> []"
    if "key \<in> set pk \<or> key \<in> set ok \<or> key \<in> set ik"
    using that by (auto simp add: matching_reasons_def)
  show ?thesis
    using r c e ne annotate_comment [of "matching_reasons key pk ok ik ''c''" s]
    by (auto simp add: annotate_def)
qed

theorem override_and_ignore_suppress_constraints_only_witness:
  "decode_line scenario_world (Str ''pkg==1.0\<newline>'') = Some ''pkg==1.0\<newline>''
   \<and> \<not> startswith ''pkg==1.0\<newline>'' ''-c'' \<and> \<not> startswith ''pkg==1.0\<newline>'' ''-r''
   \<and> requirement_key scenario_world ''pkg==1.0\<newline>'' = Some ''pkg''
   \<and> snd (process_line 0 scenario_world (Str ''pkg==1.0\<newline>'') [] [''pkg''] [''pkg''] ''r'' [])
       = Inr ([''pkg==1.0\<newline>''], [])
   \<and> (\<exists>out. snd (process_line 0 scenario_world (Str ''pkg==1.0\<newline>'') [] [''pkg''] [''pkg''] ''c'' [])
              = Inr ([], [out]) \<and> startswith out ''# '')"
proof -
  have h1: "decode_line scenario_world (Str ''pkg==1.0\<newline>'') = Some ''pkg==1.0\<newline>''"
    by (simp add: decode_line_def)
  have h2: "\<not> startswith ''pkg==1.0\<newline>'' ''-c''" by (simp add: startswith_def)
  have h3: "\<not> startswith ''pkg==1.0\<newline>'' ''-r''" by (simp add: startswith_def)
  have h4: "requirement_key scenario_world ''pkg==1.0\<newline>'' = Some ''pkg''"
    by (simp add: scenario_world_def scenario_key_def nl_def)
  from override_and_ignore_suppress_constraints_only [OF h1 h2 h3 h4, of 0 "[]" "[''pkg'']" "[''pkg'']" "[]"]
  show ?thesis using h1 h2 h3 h4 by simp
qed

subsection \<open>Lines that are not requirement specifiers\<close>

lemma process_io_result:
  "snd (process_io n w st rs cs pk ok ik v lg) = snd (io_run n w st rs cs pk ok ik v)"
proof (cases st)
  case (Pair fio stop)
  have "process_io n w (fio, stop) rs cs pk ok ik v lg =
      (lg @ fst (io_run n w (fio, stop) rs cs pk ok ik v),
       snd (io_run n w (fio, stop) rs cs pk ok ik v))"
    by (rule process_io_log, rule process_line_log, rule resolve_dependencies_log)
  then show ?thesis by (simp add: Pair)
qed

text \<open>
  The result of a call for a non-blank target, in terms of the stream it reads: an error
  when getting the stream raises, otherwise the lines collected from the stream, each
  block wrapped if it is the block of the call's variety and not empty.
\<close>

lemma resolve_via_source:
  assumes nb: "strip f \<noteq> []"
  shows "(source_lines w f = None \<longrightarrow>
            (\<exists>e. snd (resolve_dependencies (Suc n) w f pk ok ik v lg) = Inl e))
     \<and> (\<forall>st. source_lines w f = Some st \<longrightarrow>
            snd (resolve_dependencies (Suc n) w f pk ok ik v lg) =
              (case snd (io_run n w st [] [] pk ok ik v) of
                 Inl e \<Rightarrow> Inl e
               | Inr (rs, cs) \<Rightarrow>
                   Inr (if rs \<noteq> [] \<and> v = ''r'' then requirements_block f rs else rs,
                        if cs \<noteq> [] \<and> v = ''c'' then constraints_block f cs else cs)))"
    (is "?none \<and> ?some")
proof -
  note blocks = requirements_block_def constraints_block_def hash_rule_def
  have leaf: "snd (resolve_dependencies (Suc n) w f pk ok ik v lg) =
              (case snd (io_run n w st [] [] pk ok ik v) of
                 Inl e \<Rightarrow> Inl e
               | Inr (rs, cs) \<Rightarrow>
                   Inr (if rs \<noteq> [] \<and> v = ''r'' then requirements_block f rs else rs,
                        if cs \<noteq> [] \<and> v = ''c'' then constraints_block f cs else cs))"
    if red: "resolve_dependencies (Suc n) w f pk ok ik v lg =
       (case process_io n w st [] [] pk ok ik v (lg @ [(INFO, ''Read ['' @ v @ '']: '' @ f)]) of
          (lg2, Inl e) \<Rightarrow> (lg2, Inl e)
        | (lg2, Inr (rs, cs)) \<Rightarrow>
            (lg2, Inr (if rs \<noteq> [] \<and> v = ''r'' then requirements_block f rs else rs,
                       if cs \<noteq> [] \<and> v = ''c'' then constraints_block f cs else cs)))"
    for st
  proof -
    define lg1 where "lg1 = lg @ [(INFO, ''Read ['' @ v @ '']: '' @ f)]"
    obtain lg2 r where io: "process_io n w st [] [] pk ok ik v lg1 = (lg2, r)"
      by (cases "process_io n w st [] [] pk ok ik v lg1")
    from process_io_result [of n w st "[]" "[]" pk ok ik v lg1]
    have r: "snd (io_run n w st [] [] pk ok ik v) = r" by (simp add: io)
    show ?thesis
      unfolding red lg1_def [symmetric] io r by (cases r) (auto split: prod.splits)
  qed
  show ?thesis
  proof (cases "url_scheme w f")
    case None
    with nb show ?thesis by (simp add: source_lines_def)
  next
    case (Some sch)
    show ?thesis
    proof (cases "sch = []")
      case local: True
      show ?thesis
      proof (cases "path_exists w f")
        case (Inl e)
        with nb Some local show ?thesis by (simp add: source_lines_def)
      next
        case (Inr present)
        show ?thesis
        proof (cases present)
          case False
          with nb Some local Inr show ?thesis by (simp add: source_lines_def io_run_def)
        next
          case True
          show ?thesis
          proof (cases "path_open w f")
            case None
            with nb Some local Inr True show ?thesis by (simp add: source_lines_def)
          next
            case st: (Some st)
            have "snd (resolve_dependencies (Suc n) w f pk ok ik v lg) =
              (case snd (io_run n w st [] [] pk ok ik v) of
                 Inl e \<Rightarrow> Inl e
               | Inr (rs, cs) \<Rightarrow>
                   Inr (if rs \<noteq> [] \<and> v = ''r'' then requirements_block f rs else rs,
                        if cs \<noteq> [] \<and> v = ''c'' then constraints_block f cs else cs))"
              by (rule leaf)
                 (unfold blocks, simp add: nb Some local Inr True st Let_def
                    del: process_io.simps)
            then show ?thesis
              by (simp add: source_lines_def Some local Inr True st
                    del: resolve_dependencies.simps)
          qed
        qed
      qed
    next
      case remote: False
      show ?thesis
      proof (cases "urlopen w f")
        case None
        with nb Some remote show ?thesis by (simp add: source_lines_def)
      next
        case st: (Some st)
        have "snd (resolve_dependencies (Suc n) w f pk ok ik v lg) =
          (case snd (io_run n w st [] [] pk ok ik v) of
             Inl e \<Rightarrow> Inl e
           | Inr (rs, cs) \<Rightarrow>
               Inr (if rs \<noteq> [] \<and> v = ''r'' then requirements_block f rs else rs,
                    if cs \<noteq> [] \<and> v = ''c'' then constraints_block f cs else cs))"
          by (rule leaf)
             (unfold blocks, simp add: nb Some remote st Let_def del: process_io.simps)
        then show ?thesis
          by (simp add: source_lines_def Some remote st del: resolve_dependencies.simps)
      qed
    qed
  qed
qed

lemma resolve_returns:
  assumes ret: "snd (resolve_dependencies (Suc n) w f pk ok ik v lg) = Inr (rs, cs)"
    and nb: "strip f \<noteq> []"
  obtains st rs0 cs0 where "source_lines w f = Some st"
    and "snd (io_run n w st [] [] pk ok ik v) = Inr (rs0, cs0)"
    and "rs = (if rs0 \<noteq> [] \<and> v = ''r'' then requirements_block f rs0 else rs0)"
    and "cs = (if cs0 \<noteq> [] \<and> v = ''c'' then constraints_block f cs0 else cs0)"
proof -
  note via = resolve_via_source [OF nb, of w n pk ok ik v lg]
  from via ret obtain st where st: "source_lines w f = Some st"
    by (cases "source_lines w f") auto
  with via have eq: "snd (resolve_dependencies (Suc n) w f pk ok ik v lg) =
              (case snd (io_run n w st [] [] pk ok ik v) of
                 Inl e \<Rightarrow> Inl e
               | Inr (rs, cs) \<Rightarrow>
                   Inr (if rs \<noteq> [] \<and> v = ''r'' then requirements_block f rs else rs,
                        if cs \<noteq> [] \<and> v = ''c'' then constraints_block f cs else cs))"
    by blast
  show ?thesis
  proof (cases "snd (io_run n w st [] [] pk ok ik v)")
    case (Inl e)
    with eq ret show ?thesis by simp
  next
    case (Inr m)
    obtain rs0 cs0 where m: "m = (rs0, cs0)" by (cases m)
    from eq ret Inr m have
      "rs = (if rs0 \<noteq> [] \<and> v = ''r'' then requirements_block f rs0 else rs0)"
      "cs = (if cs0 \<noteq> [] \<and> v = ''c'' then constraints_block f cs0 else cs0)"
      by simp_all
    with st Inr m that show ?thesis by blast
  qed
qed

lemma resolve_plain:
  assumes "strip f \<noteq> []" "source_lines w f = Some (fio, None)" "list_all (plain w) fio"
  shows "snd (resolve_dependencies (Suc n) w f pk ok ik v lg) =
     Inr (if v = ''c''
          then ([], if fio = [] then [] else constraints_block f (map (emitted w pk ok ik v) fio))
          else if v = ''r''
          then (if fio = [] then [] else requirements_block f (map (emitted w pk ok ik v) fio), [])
          else (map (emitted w pk ok ik v) fio, []))"
proof -
  have io: "snd (io_run n w (fio, None) [] [] pk ok ik v) =
      Inr (if v = ''c'' then ([], map (emitted w pk ok ik v) fio)
           else (map (emitted w pk ok ik v) fio, []))"
    unfolding io_run_def using process_io_plain [OF assms(3), of n "[]" "[]" pk ok ik v "[]"]
    by simp
  from resolve_via_source [OF assms(1), of w n pk ok ik v lg] assms(2)
  have "snd (resolve_dependencies (Suc n) w f pk ok ik v lg) =
      (case snd (io_run n w (fio, None) [] [] pk ok ik v) of
         Inl e \<Rightarrow> Inl e
       | Inr (rs, cs) \<Rightarrow>
           Inr (if rs \<noteq> [] \<and> v = ''r'' then requirements_block f rs else rs,
                if cs \<noteq> [] \<and> v = ''c'' then constraints_block f cs else cs))"
    by blast
  then show ?thesis unfolding io by simp
qed

lemma process_io_keeps:
  assumes "process_io n w (fio, stop) rs cs pk ok ik v lg = (lg', Inr (rs', cs'))"
  shows "set rs \<subseteq> set rs' \<and> set cs \<subseteq> set cs'
     \<and> (\<forall>l. l \<in> set fio \<and> plain w l
            \<longrightarrow> emitted w pk ok ik v l \<in> set (if v = ''c'' then cs' else rs'))"
  using assms
proof (induction fio arbitrary: rs cs lg)
  case Nil
  then show ?case by (simp split: option.splits)
next
  case (Cons l fio)
  from Cons.prems obtain lg1 a b where
    line: "process_line n w l pk ok ik v lg = (lg1, Inr (a, b))" and
    rest: "process_io n w (fio, stop) (rs @ a) (cs @ b) pk ok ik v lg1 = (lg', Inr (rs', cs'))"
    by (auto split: prod.splits sum.splits)
  note ih = Cons.IH [OF rest]
  have here: "emitted w pk ok ik v l \<in> set (if v = ''c'' then cs' else rs')" if "plain w l"
  proof -
    from that obtain s where s: "decode_line w l = Some s"
        "\<not> startswith s ''-c''" "\<not> startswith s ''-r''"
      by (auto simp: plain_def split: option.splits)
    from line have "emitted w pk ok ik v l \<in> set (if v = ''c'' then cs @ b else rs @ a)"
      unfolding process_line_plain [OF s] by (auto split: if_splits)
    with ih show ?thesis by (auto split: if_splits)
  qed
  from ih here show ?case by auto
qed

text \<open>
  C5, as the code has it. The pass-through holds for the lines that are not taken as
  directives. A line that is text, or bytes that decode, that does not start with
  \<^verbatim>\<open>-c\<close> or \<^verbatim>\<open>-r\<close> and that the requirement parser rejects raises nothing:
  \<^verbatim>\<open>process_line\<close> returns it unchanged, as a requirement or as a constraint according
  to the variety; whenever the resolution of a file or URL whose stream holds the line
  returns, whatever the other lines are, the line is in the output; and the resolution of
  a source all of whose lines are such non-directive lines does return. A line that starts
  with \<^verbatim>\<open>-c\<close> or \<^verbatim>\<open>-r\<close> is a directive whatever follows and is never parsed as a
  specifier.
\<close>

theorem plain_malformed_line_passes_through:
  assumes "decode_line w l = Some s" "\<not> startswith s ''-c''" "\<not> startswith s ''-r''"
    "requirement_key w s = None"
  shows "snd (process_line n w l pk ok ik v lg) = Inr (if v = ''c'' then ([], [s]) else ([s], []))
     \<and> (strip f \<noteq> [] \<and> source_lines w f = Some (fio, stop) \<and> l \<in> set fio
          \<and> snd (resolve_dependencies (Suc n) w f pk ok ik v lg) = Inr (rs, cs)
        \<longrightarrow> s \<in> set (if v = ''c'' then cs else rs))
     \<and> (strip f \<noteq> [] \<and> source_lines w f = Some (fio, None) \<and> list_all (plain w) fio
        \<longrightarrow> (\<exists>rs cs. snd (resolve_dependencies (Suc n) w f pk ok ik v lg) = Inr (rs, cs)))"
proof -
  have pl: "plain w l" using assms(1-3) by (simp add: plain_def)
  have em: "emitted w pk ok ik v' l = s" for v'
    using assms(1,4) by (simp add: emitted_def)
  have line: "snd (process_line n w l pk ok ik v lg)
      = Inr (if v = ''c'' then ([], [s]) else ([s], []))"
    by (simp add: process_line_plain [OF assms(1-3)] em)
  have kept: "s \<in> set (if v = ''c'' then cs else rs)"
    if nb: "strip f \<noteq> []" and src: "source_lines w f = Some (fio, stop)" and mem: "l \<in> set fio"
      and ret: "snd (resolve_dependencies (Suc n) w f pk ok ik v lg) = Inr (rs, cs)"
  proof (rule resolve_returns [OF ret nb])
    fix st rs0 cs0
    assume st: "source_lines w f = Some st"
      and io: "snd (io_run n w st [] [] pk ok ik v) = Inr (rs0, cs0)"
      and rs: "rs = (if rs0 \<noteq> [] \<and> v = ''r'' then requirements_block f rs0 else rs0)"
      and cs: "cs = (if cs0 \<noteq> [] \<and> v = ''c'' then constraints_block f cs0 else cs0)"
    from st src have st': "st = (fio, stop)" by simp
    obtain lg2 where run: "process_io n w (fio, stop) [] [] pk ok ik v [] = (lg2, Inr (rs0, cs0))"
      using io unfolding io_run_def st'
      by (cases "process_io n w (fio, stop) [] [] pk ok ik v []") simp
    have "plain w l \<Longrightarrow> l \<in> set fio
        \<Longrightarrow> emitted w pk ok ik v l \<in> set (if v = ''c'' then cs0 else rs0)"
      using process_io_keeps [OF run] by blast
    with mem pl have "s \<in> set (if v = ''c'' then cs0 else rs0)"
      by (simp add: em)
    then show ?thesis
      unfolding rs cs
      by (auto simp add: requirements_block_def constraints_block_def split: if_splits)
  qed
  have returns: "\<exists>rs cs. snd (resolve_dependencies (Suc n) w f pk ok ik v lg) = Inr (rs, cs)"
    if "strip f \<noteq> []" "source_lines w f = Some (fio, None)" "list_all (plain w) fio"
    unfolding resolve_plain [OF that] by (metis surj_pair)
  from line kept returns show ?thesis by blast
qed

theorem plain_malformed_line_passes_through_witness:
  "decode_line scenario_world (Str ''-e ./local\<newline>'') = Some ''-e ./local\<newline>''
   \<and> \<not> startswith ''-e ./local\<newline>'' ''-c'' \<and> \<not> startswith ''-e ./local\<newline>'' ''-r''
   \<and> requirement_key scenario_world ''-e ./local\<newline>'' = None
   \<and> strip ''local.txt'' \<noteq> []
   \<and> source_lines scenario_world ''local.txt''
        = Some ([Str ''-e ./local\<newline>'', Str ''pkg==1.0\<newline>''], None)
   \<and> list_all (plain scenario_world) [Str ''-e ./local\<newline>'', Str ''pkg==1.0\<newline>'']
   \<and> snd (process_line 0 scenario_world (Str ''-e ./local\<newline>'') [''pkg''] [] [] ''r'' [])
        = Inr ([''-e ./local\<newline>''], [])
   \<and> snd (resolve_dependencies (Suc 0) scenario_world ''local.txt'' [''pkg''] [] [] ''r'' [])
        = Inr (requirements_block ''local.txt''
                 [''-e ./local\<newline>'', disabled ''source'' ''pkg==1.0\<newline>''], [])
   \<and> ''-e ./local\<newline>'' \<in> set (requirements_block ''local.txt''
                 [''-e ./local\<newline>'', disabled ''source'' ''pkg==1.0\<newline>''])"
proof -
  let ?l = "Str ''-e ./local\<newline>''"
  let ?fio = "[Str ''-e ./local\<newline>'', Str ''pkg==1.0\<newline>'']"
  let ?R = "requirements_block ''local.txt''
                 [''-e ./local\<newline>'', disabled ''source'' ''pkg==1.0\<newline>'']"
  have h1: "decode_line scenario_world ?l = Some ''-e ./local\<newline>''"
    by (simp add: decode_line_def)
  have h2: "\<not> startswith ''-e ./local\<newline>'' ''-c''" by (simp add: startswith_def)
  have h3: "\<not> startswith ''-e ./local\<newline>'' ''-r''" by (simp add: startswith_def)
  have h4: "requirement_key scenario_world ''-e ./local\<newline>'' = None"
    by (simp add: scenario_world_def scenario_key_def nl_def)
  have h5: "strip ''local.txt'' \<noteq> []" by (simp add: strip_def isspace_def)
  have h6: "source_lines scenario_world ''local.txt'' = Some (?fio, None)"
    by (simp add: source_lines_def path_exists_def scenario_world_def scenario_stat_def
          scenario_files_def startswith_def nl_def)
  have h7: "list_all (plain scenario_world) ?fio"
    by (simp add: plain_def decode_line_def startswith_def)
  have run: "snd (resolve_dependencies (Suc 0) scenario_world ''local.txt'' [''pkg''] [] [] ''r'' [])
        = Inr (?R, [])"
    by (simp add: process_line.simps scenario_simps nl_def requirements_block_def hash_rule_def
          disabled_def)
  note inst = plain_malformed_line_passes_through [OF h1 h2 h3 h4, of 0 "[''pkg'']" "[]" "[]" "''r''" "[]"
      "''local.txt''" ?fio None ?R "[]"]
  from inst have line: "snd (process_line 0 scenario_world ?l [''pkg''] [] [] ''r'' [])
        = Inr ([''-e ./local\<newline>''], [])" by simp
  from inst h5 h6 run have mem: "''-e ./local\<newline>'' \<in> set ?R" by simp
  from h1 h2 h3 h4 h5 h6 h7 line run mem show ?thesis by blast
qed

text \<open>
  The parser rejects the lines \<^verbatim>\<open>-r\<close> and \<^verbatim>\<open>-random junk\<close>, and neither is forwarded:
  the first raises \<open>IndexError\<close>, in \<^verbatim>\<open>process_line\<close> and so in the resolution of the
  file \<^verbatim>\<open>broken.txt\<close> that holds it after a well-formed line; the second is read as an
  include of the missing file \<^verbatim>\<open>junk\<close> and disappears from the output.
\<close>

theorem directive_like_malformed_line_is_fatal_or_dropped:
  "requirement_key scenario_world ''-r\<newline>'' = None
   \<and> snd (process_line (Suc 0) scenario_world (Str ''-r\<newline>'') [] [] [] ''r'' [])
       = Inl IndexError
   \<and> snd (resolve_dependencies (Suc 0) scenario_world ''broken.txt'' [] [] [] ''r'' [])
       = Inl IndexError
   \<and> requirement_key scenario_world ''-random junk\<newline>'' = None
   \<and> snd (process_line (Suc 0) scenario_world (Str ''-random junk\<newline>'') [] [] [] ''r'' [])
       = Inr ([], [])"
  by (simp add: process_line.simps scenario_simps nl_def)

subsection \<open>Delimiters around a block\<close>














subsection \<open>The overrides section of the constraints file\<close>

lemma write_dev_overrides_loop_map:
  "write_dev_overrides_loop fio ovs pk = fio @ map (override_entry pk) ovs"
  by (induction fio ovs pk rule: write_dev_overrides_loop.induct)
     (simp_all add: override_entry_def)

text \<open>
  C9. When both output files can be opened and are different files, \<^verbatim>\<open>write\<close> leaves
  in the constraints file the resolved constraints followed, only if at least one
  override is configured, by the overrides section: its header and, for every configured
  override in order, the override line itself, or, when the entry's package key is in
  \<open>package_keys\<close>, the line as a comment saying that the source override wins.
\<close>

theorem constraints_file_overrides_section:
  assumes "configuration st = cfg" "can_open (out_constraints cfg)"
    "can_open (out_requirements cfg)" "out_constraints cfg \<noteq> out_requirements cfg"
  shows "snd (write_state can_open st fs lg) = None
     \<and> fst (fst (write_state can_open st fs lg)) (out_constraints cfg) =
         Some (concat (constraints st)
               @ (if overrides cfg = [] then []
                  else overrides_section (package_keys cfg) (overrides cfg)))"
  using assms
  by (simp add: write_state_def write_dev_overrides_def write_dev_overrides_loop_map
        overrides_section_def hash_rule_def Let_def split: prod.splits)

theorem constraints_file_overrides_section_witness:
  "out_constraints (configuration scenario_state) \<noteq> out_requirements (configuration scenario_state)
   \<and> snd (write_state (\<lambda>p. True) scenario_state Map.empty []) = None
   \<and> fst (fst (write_state (\<lambda>p. True) scenario_state Map.empty [])) ''constraints-mxdev.txt'' =
       Some (''x==1\<newline>\<newline>'' @ hash_rule
             @ ''\<newline># mxdev constraint overrides\<newline>''
             @ ''# pkg==2.0 IGNORE mxdev constraint override. Source override wins!\<newline>''
             @ ''other==3.0\<newline>\<newline>'')"
proof -
  have h4: "out_constraints (configuration scenario_state)
      \<noteq> out_requirements (configuration scenario_state)"
    by (simp add: scenario_state_def)
  have oc: "out_constraints (configuration scenario_state) = ''constraints-mxdev.txt''"
    by (simp add: scenario_state_def)
  from constraints_file_overrides_section [OF refl, of "\<lambda>p. True" scenario_state, OF TrueI TrueI h4, of Map.empty "[]"]
  show ?thesis
    unfolding oc using h4
    by (simp add: scenario_state_def overrides_section_def override_entry_def nl_def)
qed

subsection \<open>Revision and branch\<close>

text \<open>
  C2. For a source descriptor with both \<open>revision\<close> and \<open>branch\<close> set, checkout and
  update end with the configuration error and have made no adapter call; neither value
  is used.
\<close>

theorem revision_and_branch_rejected_before_any_call:
  assumes "sd_revision d = Some r" "sd_branch d = Some b"
  shows "checkout cloned d = ([], Inl ConfigurationError)
     \<and> update path_present d = ([], Inl ConfigurationError)"
  using assms by (simp add: checkout_def update_def)

theorem revision_and_branch_rejected_before_any_call_witness:
  "sd_revision scenario_source = Some ''0123abc'' \<and> sd_branch scenario_source = Some ''test''
   \<and> checkout False scenario_source = ([], Inl ConfigurationError)
   \<and> update True scenario_source = ([], Inl ConfigurationError)"
proof -
  have h1: "sd_revision scenario_source = Some ''0123abc''" by (simp add: scenario_source_def)
  have h2: "sd_branch scenario_source = Some ''test''" by (simp add: scenario_source_def)
  from revision_and_branch_rejected_before_any_call [OF h1 h2, of False True]
  show ?thesis using h1 h2 by simp
qed

end
